theory Spec2Isabelle
  imports Complex_Main "HOL-Library.AList"
begin

section \<open>Strings, runes and the standard-library functions the miner calls\<close>

text \<open>
  A Go string is modelled by the list of its runes, for text whose runes lie in the
  Latin-1 range U+0000..U+00FF, so that a rune is a \<^typ>\<open>char\<close>.  On such text the
  functions of the packages \<^verbatim>\<open>unicode\<close> and \<^verbatim>\<open>strings\<close> used by the
  miner are the ones below.
\<close>

definition IsSpace :: "char \<Rightarrow> bool" where
  \<comment> \<open>\<^verbatim>\<open>unicode.IsSpace\<close> on Latin-1: tab, LF, VT, FF, CR, space, U+0085, U+00A0.\<close>
  "IsSpace c = ((of_char c :: nat) \<in> {9, 10, 11, 12, 13, 32, 133, 160})"

definition IsNumber :: "char \<Rightarrow> bool" where
  \<comment> \<open>\<^verbatim>\<open>unicode.IsNumber\<close> on Latin-1: the digits 0-9, the superscripts U+00B2,
      U+00B3, U+00B9 and the fractions U+00BC..U+00BE.\<close>
  "IsNumber c = (let n = (of_char c :: nat) in
     (48 \<le> n \<and> n \<le> 57) \<or> n = 178 \<or> n = 179 \<or> n = 185 \<or> (188 \<le> n \<and> n \<le> 190))"

definition TrimSpace :: "string \<Rightarrow> string" where
  \<comment> \<open>\<^verbatim>\<open>strings.TrimSpace\<close>: drops the leading and the trailing white space.\<close>
  "TrimSpace s = rev (dropWhile IsSpace (rev (dropWhile IsSpace s)))"

fun Split_space :: "string \<Rightarrow> string list" where
  \<comment> \<open>\<^verbatim>\<open>strings.Split(s, " ")\<close>: the pieces between the single spaces of \<open>s\<close>;
      one more piece than there are spaces, so never an empty list.\<close>
  "Split_space [] = [[]]"
| "Split_space (c # cs) =
     (if c = CHR '' '' then [] # Split_space cs
      else (case Split_space cs of
              [] \<Rightarrow> [[c]]
            | w # ws \<Rightarrow> (c # w) # ws))"

function Itoa :: "nat \<Rightarrow> string" where
  \<comment> \<open>\<^verbatim>\<open>strconv.Itoa\<close> on a length (never negative): the decimal digits, most
      significant first\<close>
  "Itoa n = (if n < 10 then [char_of (48 + n)] else Itoa (n div 10) @ [char_of (48 + n mod 10)])"
  by pat_completeness auto
termination
  by (relation "measure id") auto

declare Itoa.simps [simp del]

subsection \<open>Regular expressions\<close>

text \<open>
  A compiled \<^verbatim>\<open>*regexp.Regexp\<close> is modelled by its syntax tree, with the operators of
  \<^verbatim>\<open>regexp/syntax\<close> that the patterns of the repository use.  \<open>ends re s i\<close> lists
  the positions where a match of \<open>re\<close> that starts at position \<open>i\<close> of \<open>s\<close> can end.
\<close>

datatype regexp =
    EmptyMatch
  | Literal char
  | CharRange char char
  | AnyCharNotNL
  | BeginText
  | EndText
  | Concat regexp regexp
  | Alternate regexp regexp
  | Star regexp

fun star_close :: "(nat \<Rightarrow> nat list) \<Rightarrow> nat \<Rightarrow> nat list \<Rightarrow> nat list" where
  \<comment> \<open>\<open>n\<close> rounds of adding the positions that one more match of the body reaches; the
      positions lie between the start and the end of the string, so \<open>length s + 1\<close>
      rounds reach them all\<close>
  "star_close f 0 acc = acc"
| "star_close f (Suc n) acc = star_close f n (remdups (acc @ concat (map f acc)))"

fun ends :: "regexp \<Rightarrow> string \<Rightarrow> nat \<Rightarrow> nat list" where
  "ends EmptyMatch s i = [i]"
| "ends (Literal c) s i = (if i < length s \<and> s ! i = c then [Suc i] else [])"
| "ends (CharRange lo hi) s i =
     (if i < length s \<and> (of_char lo :: nat) \<le> of_char (s ! i) \<and> (of_char (s ! i) :: nat) \<le> of_char hi
      then [Suc i] else [])"
| "ends AnyCharNotNL s i = (if i < length s \<and> s ! i \<noteq> CHR 0x0A then [Suc i] else [])"
| "ends BeginText s i = (if i = 0 then [i] else [])"
| "ends EndText s i = (if i = length s then [i] else [])"
| "ends (Concat r1 r2) s i = concat (map (\<lambda>j. ends r2 s j) (ends r1 s i))"
| "ends (Alternate r1 r2) s i = ends r1 s i @ ends r2 s i"
| "ends (Star r) s i = star_close (\<lambda>j. ends r s j) (Suc (length s)) [i]"

definition Plus :: "regexp \<Rightarrow> regexp" where
  "Plus r = Concat r (Star r)"

definition fullMatch :: "regexp \<Rightarrow> string \<Rightarrow> bool" where
  \<comment> \<open>the whole of \<open>s\<close> is one match of \<open>re\<close>\<close>
  "fullMatch re s = (length s \<in> set (ends re s 0))"

definition MatchString :: "regexp \<Rightarrow> string \<Rightarrow> bool" where
  \<comment> \<open>\<^verbatim>\<open>(*Regexp).MatchString\<close>: reports whether \<open>s\<close> contains any match of \<open>re\<close>,
      starting anywhere and ending anywhere.\<close>
  "MatchString re s = list_ex (\<lambda>i. ends re s i \<noteq> []) [0..<Suc (length s)]"

definition SpaceTokenizer :: "string \<Rightarrow> string list" where
  "SpaceTokenizer content = Split_space (TrimSpace content)"


section \<open>Data model\<close>

datatype error =
    NilPointerDereference
  | IndexOutOfRange
  | SeqLengthMismatch
  | DepthTooSmall

text \<open>
  A \<^verbatim>\<open>float64\<close> that is the quotient of two counts, or a threshold: a rational, or
  NaN for \<open>0 / 0\<close>.  The counts are far below \<open>2^53\<close>, where the conversion to
  \<^verbatim>\<open>float64\<close> is exact and the rounded quotients compare as the exact ones do.
\<close>

datatype float64 = NaN | Finite rat

fun float_gt :: "float64 \<Rightarrow> float64 \<Rightarrow> bool" where
  "float_gt (Finite x) (Finite y) = (x > y)"
| "float_gt _ _ = False"

fun float_eq :: "float64 \<Rightarrow> float64 \<Rightarrow> bool" where
  "float_eq (Finite x) (Finite y) = (x = y)"
| "float_eq _ _ = False"

fun float_ge :: "float64 \<Rightarrow> float64 \<Rightarrow> bool" where
  "float_ge (Finite x) (Finite y) = (x \<ge> y)"
| "float_ge _ _ = False"

definition float_div :: "nat \<Rightarrow> nat \<Rightarrow> float64" where
  \<comment> \<open>\<^verbatim>\<open>float64(a) / float64(b)\<close> for two counts with \<open>a \<le> b\<close>, so that a zero
      divisor comes with a zero dividend\<close>
  "float_div a b = (if b = 0 then NaN else Finite (of_nat a / of_nat b))"

record Config =
  maxNodeDepth :: int
  ClusterDepth :: int
  SimTh :: float64
  MaxChildren :: int
  ExtraDelimiters :: "string list"
  MaxClusters :: int
  ParamPatterns :: "string \<rightharpoonup> regexp"
  Tokenizer :: "string \<Rightarrow> string list"

text \<open>Cluster ids and sizes count up from 0 and 1: they are naturals.\<close>

record Cluster =
  tokens :: "string list"
  id' :: nat
  size' :: nat

text \<open>
  Modelled from the spec: the LRU of the imported package \<^verbatim>\<open>simplelru\<close> is not part
  of the sources.  Its contract: \<open>Add\<close> inserts or refreshes and evicts the least
  recently used entry on overflow, \<open>Get\<close> returns the value and marks the entry most
  recently used, \<open>Peek\<close> and \<open>Keys\<close> leave the recency alone, \<open>Keys\<close> lists from
  the oldest to the newest, and \<open>NewLRU\<close> refuses a size that is not positive.  The
  entries are kept most recently used first.
\<close>

record LRU =
  size_lru :: int
  evictList :: "(nat \<times> Cluster) list"

definition NewLRU :: "int \<Rightarrow> LRU option" where
  "NewLRU sz = (if sz \<le> 0 then None else Some \<lparr>size_lru = sz, evictList = []\<rparr>)"

definition moveToFront :: "nat \<Rightarrow> Cluster \<Rightarrow> (nat \<times> Cluster) list \<Rightarrow> (nat \<times> Cluster) list" where
  "moveToFront key v l = (key, v) # filter (\<lambda>e. fst e \<noteq> key) l"

definition lru_Add :: "nat \<Rightarrow> Cluster \<Rightarrow> LRU \<Rightarrow> LRU" where
  "lru_Add key v c =
     (case map_of (evictList c) key of
        Some old \<Rightarrow> c\<lparr>evictList := moveToFront key v (evictList c)\<rparr>
      | None \<Rightarrow>
          (let l = (key, v) # evictList c
           in c\<lparr>evictList := (if int (length l) > size_lru c then butlast l else l)\<rparr>))"

definition lru_Get :: "nat \<Rightarrow> LRU \<Rightarrow> Cluster option \<times> LRU" where
  "lru_Get key c =
     (case map_of (evictList c) key of
        Some v \<Rightarrow> (Some v, c\<lparr>evictList := moveToFront key v (evictList c)\<rparr>)
      | None \<Rightarrow> (None, c))"

definition lru_Peek :: "nat \<Rightarrow> LRU \<Rightarrow> Cluster option" where
  "lru_Peek key c = map_of (evictList c) key"

definition lru_Keys :: "LRU \<Rightarrow> nat list" where
  "lru_Keys c = rev (map fst (evictList c))"

text \<open>
  \<^verbatim>\<open>ClusterCache\<close> wraps the LRU.  \<^verbatim>\<open>createClusterCache\<close> drops the error of
  \<^verbatim>\<open>NewLRU\<close>, so for a negative size the wrapped pointer is nil and every later use of
  it panics.
\<close>

record ClusterCache =
  cache :: "LRU option"

definition MaxInt :: int where
  "MaxInt = 2 ^ 63 - 1"

definition createClusterCache :: "int \<Rightarrow> ClusterCache" where
  "createClusterCache maxSize =
     (let maxSize = (if maxSize = 0 then MaxInt else maxSize)
      in \<lparr>cache = NewLRU maxSize\<rparr>)"

definition ClusterCache_Values :: "ClusterCache \<Rightarrow> error + Cluster list" where
  "ClusterCache_Values c =
     (case cache c of
        None \<Rightarrow> Inl NilPointerDereference
      | Some l \<Rightarrow> Inr (List.map_filter (\<lambda>key. lru_Peek key l) (lru_Keys l)))"

definition ClusterCache_Set :: "nat \<Rightarrow> Cluster \<Rightarrow> ClusterCache \<Rightarrow> error + ClusterCache" where
  "ClusterCache_Set key cluster c =
     (case cache c of
        None \<Rightarrow> Inl NilPointerDereference
      | Some l \<Rightarrow> Inr (c\<lparr>cache := Some (lru_Add key cluster l)\<rparr>))"

definition ClusterCache_Get :: "nat \<Rightarrow> ClusterCache \<Rightarrow> error + (Cluster option \<times> ClusterCache)" where
  "ClusterCache_Get key c =
     (case cache c of
        None \<Rightarrow> Inl NilPointerDereference
      | Some l \<Rightarrow> (case lru_Get key l of (r, l') \<Rightarrow> Inr (r, c\<lparr>cache := Some l'\<rparr>)))"

text \<open>
  A cluster is shared by pointer between the cache and the caller that looked it up; an
  assignment to its fields is a write to the entry of the cache, which leaves the recency
  alone.
\<close>

definition store_cluster :: "Cluster \<Rightarrow> ClusterCache \<Rightarrow> ClusterCache" where
  \<comment> \<open>the entry written is the one under the id of the cluster: \<^verbatim>\<open>Train\<close> stores every
      cluster under its own id\<close>
  "store_cluster cl c =
     (case cache c of
        None \<Rightarrow> c
      | Some l \<Rightarrow>
          c\<lparr>cache := Some (l\<lparr>evictList :=
               map (\<lambda>e. if fst e = id' cl then (fst e, cl) else e) (evictList l)\<rparr>)\<rparr>)"

text \<open>
  A node owns its children: every node is made by \<^verbatim>\<open>createNode\<close> and stored under one
  key of one parent, so the pointer structure is a tree.  The Go map from key to child is
  an association list with distinct keys; its length is \<^verbatim>\<open>len\<close> of the map.
\<close>

datatype Node = Node (keyToChildNode: "(string \<times> Node) list") (clusterIDs: "nat list")

definition createNode :: Node where
  "createNode = Node [] []"

record Drain =
  config :: Config
  rootNode :: Node
  idToCluster :: ClusterCache
  clustersCounter :: nat

definition DefaultConfig :: Config where
  "DefaultConfig =
     \<lparr>maxNodeDepth = 0, ClusterDepth = 4, SimTh = Finite (2 / 5), MaxChildren = 100,
      ExtraDelimiters = [], MaxClusters = 0,
      ParamPatterns = [''*'' \<mapsto> Star AnyCharNotNL],
      Tokenizer = SpaceTokenizer\<rparr>"

definition NewConfig :: "(string \<Rightarrow> string list) \<Rightarrow> (string \<rightharpoonup> regexp) \<Rightarrow> Config" where
  \<comment> \<open>the patterns are given compiled\<close>
  "NewConfig tokenizer paramPatterns =
     DefaultConfig\<lparr>Tokenizer := tokenizer, ParamPatterns := paramPatterns\<rparr>"

definition New :: "Config \<Rightarrow> error + Drain" where
  "New cfg =
     (if ClusterDepth cfg < 3 then Inl DepthTooSmall
      else Inr \<lparr>config = cfg\<lparr>maxNodeDepth := ClusterDepth cfg - 2\<rparr>,
                rootNode = createNode,
                idToCluster = createClusterCache (MaxClusters cfg),
                clustersCounter = 0\<rparr>)"

section \<open>The parameter classifier\<close>

text \<open>
  \<^verbatim>\<open>getParamString\<close> ranges over the Go map \<^verbatim>\<open>ParamPatterns\<close>.  Go leaves the order
  of a \<^verbatim>\<open>range\<close> over a map unspecified, and the runtime starts every such loop at a
  random entry.  The order in which one loop visits the labels is therefore an argument
  of the model; \<open>range_order\<close> says that it is an order of that map.
\<close>

definition range_order :: "Config \<Rightarrow> string list \<Rightarrow> bool" where
  "range_order cfg order = (distinct order \<and> set order = dom (ParamPatterns cfg))"

fun getParamString_loop :: "(string \<rightharpoonup> regexp) \<Rightarrow> string list \<Rightarrow> string \<Rightarrow> string" where
  "getParamString_loop pats [] token = []"
| "getParamString_loop pats (paramPattern # rest) token =
     (case pats paramPattern of
        None \<Rightarrow> getParamString_loop pats rest token
      | Some paramPatternRegexp \<Rightarrow>
          if MatchString paramPatternRegexp token then paramPattern
          else getParamString_loop pats rest token)"

definition getParamString :: "Config \<Rightarrow> string list \<Rightarrow> string \<Rightarrow> string" where
  "getParamString cfg order token = getParamString_loop (ParamPatterns cfg) order token"

definition hasNumbers :: "string \<Rightarrow> bool" where
  "hasNumbers s = list_ex IsNumber s"

section \<open>Similarity and template update\<close>

fun getSeqDistance_loop :: "Config \<Rightarrow> string list \<Rightarrow> string list \<Rightarrow> nat \<times> nat \<Rightarrow> nat \<times> nat" where
  \<comment> \<open>the pair is \<open>(simTokens, paramCount)\<close>\<close>
  "getSeqDistance_loop cfg (token1 # seq1) (token2 # seq2) (simTokens, paramCount) =
     (if ParamPatterns cfg token1 \<noteq> None
      then getSeqDistance_loop cfg seq1 seq2 (simTokens, paramCount + 1)
      else if token1 = token2
      then getSeqDistance_loop cfg seq1 seq2 (simTokens + 1, paramCount)
      else getSeqDistance_loop cfg seq1 seq2 (simTokens, paramCount))"
| "getSeqDistance_loop cfg _ _ acc = acc"

definition getSeqDistance :: "Config \<Rightarrow> string list \<Rightarrow> string list \<Rightarrow> bool \<Rightarrow> error + (float64 \<times> nat)" where
  "getSeqDistance cfg seq1 seq2 includeParams =
     (if length seq1 \<noteq> length seq2 then Inl SeqLengthMismatch
      else
        (case getSeqDistance_loop cfg seq1 seq2 (0, 0) of
           (simTokens, paramCount) \<Rightarrow>
             (let simTokens = (if includeParams then simTokens + paramCount else simTokens)
              in Inr (float_div simTokens (length seq1), paramCount))))"

fun createTemplate_loop :: "Config \<Rightarrow> (nat \<Rightarrow> string list) \<Rightarrow> nat \<Rightarrow> string list \<Rightarrow> string list \<Rightarrow> string list" where
  \<comment> \<open>the loop at index \<open>i\<close>, with the rest of \<open>source\<close> and of the copy of \<open>target\<close>\<close>
  "createTemplate_loop cfg order i (s # source) (t # target) =
     (if s \<noteq> t then getParamString cfg (order i) s else t)
       # createTemplate_loop cfg order (Suc i) source target"
| "createTemplate_loop cfg order i _ target = target"

definition createTemplate :: "Config \<Rightarrow> (nat \<Rightarrow> string list) \<Rightarrow> string list \<Rightarrow> string list \<Rightarrow> error + string list" where
  "createTemplate cfg order source target =
     (if length source \<noteq> length target then Inl SeqLengthMismatch
      else Inr (createTemplate_loop cfg order 0 source target))"

section \<open>Prefix tree: search\<close>

fun fastMatch_loop :: "Config \<Rightarrow> string list \<Rightarrow> bool \<Rightarrow> nat list
    \<Rightarrow> ClusterCache \<times> float64 \<times> int \<times> Cluster option
    \<Rightarrow> error + (ClusterCache \<times> float64 \<times> int \<times> Cluster option)" where
  \<comment> \<open>the state is \<open>(idToCluster, maxSim, maxParamCount, maxCluster)\<close>\<close>
  "fastMatch_loop cfg toks includeParams [] st = Inr st"
| "fastMatch_loop cfg toks includeParams (clusterID # rest) (c, maxSim, maxParamCount, maxCluster) =
     (case ClusterCache_Get clusterID c of
        Inl e \<Rightarrow> Inl e
      | Inr (None, c') \<Rightarrow>
          fastMatch_loop cfg toks includeParams rest (c', maxSim, maxParamCount, maxCluster)
      | Inr (Some cluster, c') \<Rightarrow>
          (case getSeqDistance cfg (tokens cluster) toks includeParams of
             Inl e \<Rightarrow> Inl e
           | Inr (curSim, paramCount) \<Rightarrow>
               if float_gt curSim maxSim \<or> (float_eq curSim maxSim \<and> int paramCount > maxParamCount)
               then fastMatch_loop cfg toks includeParams rest (c', curSim, int paramCount, Some cluster)
               else fastMatch_loop cfg toks includeParams rest (c', maxSim, maxParamCount, maxCluster)))"

definition fastMatch :: "Config \<Rightarrow> ClusterCache \<Rightarrow> nat list \<Rightarrow> string list \<Rightarrow> float64 \<Rightarrow> bool
    \<Rightarrow> error + (Cluster option \<times> ClusterCache)" where
  "fastMatch cfg c ids toks simTh includeParams =
     (case fastMatch_loop cfg toks includeParams ids (c, Finite (- 1), - 1, None) of
        Inl e \<Rightarrow> Inl e
      | Inr (c', maxSim, maxParamCount, maxCluster) \<Rightarrow>
          Inr (if float_ge maxSim simTh then maxCluster else None, c'))"

fun treeSearch_loop :: "Config \<Rightarrow> (nat \<Rightarrow> string list) \<Rightarrow> int \<Rightarrow> int \<Rightarrow> nat \<Rightarrow> string list \<Rightarrow> Node
    \<Rightarrow> Node option" where
  \<comment> \<open>the descent at depth \<open>curNodeDepth\<close> and token index \<open>i\<close>; \<open>None\<close> is the
      \<^verbatim>\<open>return nil\<close> inside the loop\<close>
  "treeSearch_loop cfg order tokenCount curNodeDepth i [] curNode = Some curNode"
| "treeSearch_loop cfg order tokenCount curNodeDepth i (token # rest) curNode =
     (if curNodeDepth \<ge> maxNodeDepth cfg then Some curNode
      else if curNodeDepth = tokenCount then Some curNode
      else
        (case map_of (keyToChildNode curNode) token of
           Some child \<Rightarrow> treeSearch_loop cfg order tokenCount (curNodeDepth + 1) (Suc i) rest child
         | None \<Rightarrow>
             (case map_of (keyToChildNode curNode) (getParamString cfg (order i) token) of
                Some child \<Rightarrow> treeSearch_loop cfg order tokenCount (curNodeDepth + 1) (Suc i) rest child
              | None \<Rightarrow> None)))"

definition treeSearch :: "Config \<Rightarrow> (nat \<Rightarrow> string list) \<Rightarrow> ClusterCache \<Rightarrow> Node \<Rightarrow> string list
    \<Rightarrow> float64 \<Rightarrow> bool \<Rightarrow> error + (Cluster option \<times> ClusterCache)" where
  "treeSearch cfg order c rnode toks simTh includeParams =
     (case map_of (keyToChildNode rnode) (Itoa (length toks)) of
        None \<Rightarrow> Inr (None, c)
      | Some curNode \<Rightarrow>
          if length toks = 0 then
            (case clusterIDs curNode of
               [] \<Rightarrow> Inl IndexOutOfRange
             | clusterID # _ \<Rightarrow> ClusterCache_Get clusterID c)
          else
            (case treeSearch_loop cfg order (int (length toks)) 1 0 toks curNode of
               None \<Rightarrow> Inr (None, c)
             | Some leaf \<Rightarrow> fastMatch cfg c (clusterIDs leaf) toks simTh includeParams))"

section \<open>Prefix tree: insertion\<close>

fun prune_loop :: "nat list \<Rightarrow> ClusterCache \<Rightarrow> nat list \<Rightarrow> error + (nat list \<times> ClusterCache)" where
  \<comment> \<open>the clean-up of a leaf: keeps the ids that the cache still holds\<close>
  "prune_loop [] c newClusterIDs = Inr (newClusterIDs, c)"
| "prune_loop (clusterID # rest) c newClusterIDs =
     (case ClusterCache_Get clusterID c of
        Inl e \<Rightarrow> Inl e
      | Inr (None, c') \<Rightarrow> prune_loop rest c' newClusterIDs
      | Inr (Some cluster, c') \<Rightarrow> prune_loop rest c' (newClusterIDs @ [clusterID]))"

definition nextNode :: "Config \<Rightarrow> string list \<Rightarrow> string \<Rightarrow> Node \<Rightarrow> (string \<times> Node) option" where
  \<comment> \<open>one step of the descent for a token: the key under which the next node is (found
      or stored) in \<open>curNode\<close>, and that node; \<open>None\<close> when \<open>curNode\<close> becomes nil\<close>
  "nextNode cfg order token curNode =
     (let kids = keyToChildNode curNode in
      case map_of kids token of
        Some child \<Rightarrow> Some (token, child)
      | None \<Rightarrow>
          (let paramString = getParamString cfg order token in
           if \<not> hasNumbers token then
             (case map_of kids paramString of
                Some wild \<Rightarrow>
                  if int (length kids) < MaxChildren cfg then Some (token, createNode)
                  else Some (paramString, wild)
              | None \<Rightarrow>
                  if int (length kids) + 1 < MaxChildren cfg then Some (token, createNode)
                  else if int (length kids) + 1 = MaxChildren cfg then Some (paramString, createNode)
                  else None)
           else
             (case map_of kids paramString of
                None \<Rightarrow> Some (paramString, createNode)
              | Some wild \<Rightarrow> Some (paramString, wild))))"

fun addSeq_loop :: "Config \<Rightarrow> (nat \<Rightarrow> string list) \<Rightarrow> nat \<Rightarrow> int \<Rightarrow> int \<Rightarrow> nat \<Rightarrow> string list
    \<Rightarrow> ClusterCache \<Rightarrow> Node \<Rightarrow> error + (ClusterCache \<times> Node)" where
  \<comment> \<open>the loop of \<^verbatim>\<open>addSeqToPrefixTree\<close> at \<open>currentDepth\<close> and token index \<open>i\<close>;
      returns \<open>curNode\<close> as the loop leaves it.  When \<open>curNode\<close> becomes nil the next
      iteration dereferences it, whichever branch it takes.\<close>
  "addSeq_loop cfg order clusterID tokenCount currentDepth i [] c curNode = Inr (c, curNode)"
| "addSeq_loop cfg order clusterID tokenCount currentDepth i (token # rest) c curNode =
     (if currentDepth \<ge> maxNodeDepth cfg \<or> currentDepth \<ge> tokenCount then
        (case prune_loop (clusterIDs curNode) c [] of
           Inl e \<Rightarrow> Inl e
         | Inr (newClusterIDs, c') \<Rightarrow>
             Inr (c', Node (keyToChildNode curNode) (newClusterIDs @ [clusterID])))
      else
        (case nextNode cfg (order i) token curNode of
           None \<Rightarrow> if rest = [] then Inr (c, curNode) else Inl NilPointerDereference
         | Some (key, child) \<Rightarrow>
             (case addSeq_loop cfg order clusterID tokenCount (currentDepth + 1) (Suc i) rest c child of
                Inl e \<Rightarrow> Inl e
              | Inr (c', child') \<Rightarrow>
                  Inr (c', Node (AList.update key child' (keyToChildNode curNode)) (clusterIDs curNode)))))"

definition addSeqToPrefixTree :: "Config \<Rightarrow> (nat \<Rightarrow> string list) \<Rightarrow> ClusterCache \<Rightarrow> Node \<Rightarrow> Cluster
    \<Rightarrow> error + (ClusterCache \<times> Node)" where
  "addSeqToPrefixTree cfg order c rnode cluster =
     (let tokenCount = length (tokens cluster);
          tokenCountStr = Itoa tokenCount;
          firstLayerNode =
            (case map_of (keyToChildNode rnode) tokenCountStr of
               None \<Rightarrow> createNode
             | Some n \<Rightarrow> n)
      in
        if tokenCount = 0 then
          Inr (c, Node (AList.update tokenCountStr
                          (Node (keyToChildNode firstLayerNode) (clusterIDs firstLayerNode @ [id' cluster]))
                          (keyToChildNode rnode))
                       (clusterIDs rnode))
        else
          (case addSeq_loop cfg order (id' cluster) (int tokenCount) 1 0 (tokens cluster) c firstLayerNode of
             Inl e \<Rightarrow> Inl e
           | Inr (c', n') \<Rightarrow>
               Inr (c', Node (AList.update tokenCountStr n' (keyToChildNode rnode)) (clusterIDs rnode))))"

section \<open>Train and Match\<close>

text \<open>
  One call of \<^verbatim>\<open>Train\<close> or \<^verbatim>\<open>Match\<close> runs the classifier in up to three loops; the
  argument \<open>orc\<close> gives the order of the map for each run of the classifier, by loop and index.
  A panic ends the call with an error and no state.
\<close>

datatype site = InSearch | InInsert | InTemplate

type_synonym orders = "site \<Rightarrow> nat \<Rightarrow> string list"

definition Train :: "orders \<Rightarrow> string \<Rightarrow> Drain \<Rightarrow> error + (Cluster \<times> Drain)" where
  "Train orc content d =
     (let contentTokens = Tokenizer (config d) content in
      case treeSearch (config d) (orc InSearch) (idToCluster d) (rootNode d) contentTokens
             (SimTh (config d)) False of
        Inl e \<Rightarrow> Inl e
      | Inr (None, c1) \<Rightarrow>
          (let clusterID = clustersCounter d + 1;
               matchCluster = \<lparr>tokens = contentTokens, id' = clusterID, size' = 1\<rparr>
           in case ClusterCache_Set clusterID matchCluster c1 of
                Inl e \<Rightarrow> Inl e
              | Inr c2 \<Rightarrow>
                  (case addSeqToPrefixTree (config d) (orc InInsert) c2 (rootNode d) matchCluster of
                     Inl e \<Rightarrow> Inl e
                   | Inr (c3, rnode') \<Rightarrow>
                       Inr (matchCluster,
                            d\<lparr>rootNode := rnode', idToCluster := c3, clustersCounter := clusterID\<rparr>)))
      | Inr (Some matchCluster, c1) \<Rightarrow>
          (case createTemplate (config d) (orc InTemplate) contentTokens (tokens matchCluster) of
             Inl e \<Rightarrow> Inl e
           | Inr newTemplateTokens \<Rightarrow>
               (let matchCluster' = matchCluster\<lparr>tokens := newTemplateTokens,
                                                 size' := size' matchCluster + 1\<rparr>
                in case ClusterCache_Get (id' matchCluster') (store_cluster matchCluster' c1) of
                     Inl e \<Rightarrow> Inl e
                   | Inr (_, c2) \<Rightarrow> Inr (matchCluster', d\<lparr>idToCluster := c2\<rparr>))))"

definition Match :: "orders \<Rightarrow> string \<Rightarrow> Drain \<Rightarrow> error + (Cluster option \<times> Drain)" where
  "Match orc content d =
     (let contentTokens = Tokenizer (config d) content in
      case treeSearch (config d) (orc InSearch) (idToCluster d) (rootNode d) contentTokens
             (Finite 1) True of
        Inl e \<Rightarrow> Inl e
      | Inr (matchCluster, c1) \<Rightarrow> Inr (matchCluster, d\<lparr>idToCluster := c1\<rparr>))"

definition Clusters :: "Drain \<Rightarrow> error + Cluster list" where
  "Clusters d = ClusterCache_Values (idToCluster d)"

section \<open>Notions of the specification\<close>

definition is_placeholder :: "Config \<Rightarrow> string \<Rightarrow> bool" where
  \<comment> \<open>the token equals one of the configured labels\<close>
  "is_placeholder cfg t = (t \<in> dom (ParamPatterns cfg))"

definition sim_tokens_spec :: "Config \<Rightarrow> string list \<Rightarrow> string list \<Rightarrow> nat" where
  \<comment> \<open>the positions whose template token is no placeholder label and equals the
      incoming token\<close>
  "sim_tokens_spec cfg template incoming =
     length (filter (\<lambda>(t, s). \<not> is_placeholder cfg t \<and> t = s) (zip template incoming))"

definition param_count_spec :: "Config \<Rightarrow> string list \<Rightarrow> nat" where
  \<comment> \<open>the positions whose template token is a placeholder label\<close>
  "param_count_spec cfg template = length (filter (is_placeholder cfg) template)"

definition unambiguous :: "Config \<Rightarrow> string \<Rightarrow> bool" where
  \<comment> \<open>at most one configured pattern matches the token\<close>
  "unambiguous cfg token =
     (\<forall>l1 l2 r1 r2. ParamPatterns cfg l1 = Some r1 \<and> MatchString r1 token
                   \<and> ParamPatterns cfg l2 = Some r2 \<and> MatchString r2 token \<longrightarrow> l1 = l2)"

definition valid_orders :: "Config \<Rightarrow> orders \<Rightarrow> bool" where
  \<comment> \<open>every order that a call is given is an order of the map\<close>
  "valid_orders cfg orc = (\<forall>s i. range_order cfg (orc s i))"



definition recency :: "Drain \<Rightarrow> nat list option" where
  \<comment> \<open>the ids of the cache from the least to the most recently used\<close>
  "recency d = map_option lru_Keys (cache (idToCluster d))"

section \<open>Example configurations\<close>

definition Quest :: "regexp \<Rightarrow> regexp" where
  "Quest r = Alternate r EmptyMatch"

fun upto_times :: "nat \<Rightarrow> regexp \<Rightarrow> regexp" where
  \<comment> \<open>\<open>r{0,n}\<close>\<close>
  "upto_times 0 r = EmptyMatch"
| "upto_times (Suc n) r = Quest (Concat r (upto_times n r))"

definition digit_re :: regexp where
  "digit_re = CharRange CHR ''0'' CHR ''9''"

definition word_re :: regexp where
  \<comment> \<open>the class \<^verbatim>\<open>\w\<close>\<close>
  "word_re = Alternate (CharRange CHR ''0'' CHR ''9'') (Alternate (CharRange CHR ''A'' CHR ''Z'')
               (Alternate (Literal CHR ''_'') (CharRange CHR ''a'' CHR ''z'')))"

definition hexdigit_re :: regexp where
  "hexdigit_re = Alternate (CharRange CHR ''0'' CHR ''9'') (Alternate (CharRange CHR ''a'' CHR ''f'')
                   (CharRange CHR ''A'' CHR ''F''))"

definition name_re :: regexp where
  \<comment> \<open>\<^verbatim>\<open>^\w+$\<close>\<close>
  "name_re = Concat BeginText (Concat (Plus word_re) EndText)"

definition hex_re :: regexp where
  \<comment> \<open>\<^verbatim>\<open>^0x([0-9a-fA-F]{1,8})$\<close>\<close>
  "hex_re = Concat BeginText (Concat (Literal CHR ''0'') (Concat (Literal CHR ''x'')
              (Concat (Concat hexdigit_re (upto_times 7 hexdigit_re)) EndText)))"

definition demo_config :: Config where
  \<comment> \<open>the configuration of the demo program, without its \<open>{ip}\<close> pattern\<close>
  "demo_config = NewConfig SpaceTokenizer [''{hex}'' \<mapsto> hex_re, ''{name}'' \<mapsto> name_re]"

definition hex_first :: orders where
  "hex_first = (\<lambda>_ _. [''{hex}'', ''{name}''])"

definition name_first :: orders where
  "name_first = (\<lambda>_ _. [''{name}'', ''{hex}''])"

definition number_config :: Config where
  \<comment> \<open>one pattern without anchors, \<^verbatim>\<open>[0-9]+\<close>\<close>
  "number_config = NewConfig SpaceTokenizer [''{num}'' \<mapsto> Plus digit_re]"

definition narrow_config :: Config where
  \<comment> \<open>the patterns of \<open>demo_config\<close> with at most two children per node\<close>
  "narrow_config = demo_config\<lparr>MaxChildren := 2\<rparr>"

definition star_only :: orders where
  \<comment> \<open>the one order of a map with the single label \<open>*\<close>\<close>
  "star_only = (\<lambda>_ _. [''*''])"

section \<open>Runs of the learner\<close>

datatype call = CallTrain string | CallMatch string

fun run_call :: "orders \<Rightarrow> call \<Rightarrow> Drain \<Rightarrow> error + Drain" where
  "run_call orc (CallTrain content) d = map_sum id snd (Train orc content d)"
| "run_call orc (CallMatch content) d = map_sum id snd (Match orc content d)"

fun run_calls :: "(orders \<times> call) list \<Rightarrow> Drain \<Rightarrow> error + Drain" where
  \<comment> \<open>a sequence of calls on one learner, each with the orders its loops use; the run
      ends at the first panic\<close>
  "run_calls [] d = Inr d"
| "run_calls ((orc, c) # rest) d =
     (case run_call orc c d of
        Inl e \<Rightarrow> Inl e
      | Inr d' \<Rightarrow> run_calls rest d')"

definition train_lines :: "orders \<Rightarrow> string list \<Rightarrow> Config \<Rightarrow> error + Drain" where
  \<comment> \<open>a fresh learner trained on the lines, every loop with the orders \<open>orc\<close>\<close>
  "train_lines orc ls cfg =
     (case New cfg of
        Inl e \<Rightarrow> Inl e
      | Inr d \<Rightarrow> run_calls (map (\<lambda>l. (orc, CallTrain l)) ls) d)"

fun call_line :: "call \<Rightarrow> string" where
  "call_line (CallTrain content) = content"
| "call_line (CallMatch content) = content"

section \<open>Shape of the tree\<close>















section \<open>The learner after repeated training of one line\<close>

definition trained_config :: Config where
  \<comment> \<open>the default configuration as \<^verbatim>\<open>New\<close> completes it\<close>
  "trained_config = DefaultConfig\<lparr>maxNodeDepth := 2\<rparr>"

definition leaf_key :: "string list \<Rightarrow> string" where
  \<comment> \<open>the key under which the first token of a new line is filed: the wildcard for a token
      with a digit, the token itself otherwise\<close>
  "leaf_key T = (if hasNumbers (hd T) then ''*'' else hd T)"

definition first_layer :: "string list \<Rightarrow> Node" where
  \<comment> \<open>the first-level node after the insertion of cluster 1 with the tokens \<open>T\<close>\<close>
  "first_layer T = (if length T = 1 then Node [] [1] else Node [(leaf_key T, Node [] [1])] [])"

definition repeated_state :: "string list \<Rightarrow> nat \<Rightarrow> Drain" where
  \<comment> \<open>the learner after \<open>k\<close> trainings of one line with the tokens \<open>T\<close>\<close>
  "repeated_state T k =
     \<lparr>config = trained_config,
      rootNode = Node [(Itoa (length T), first_layer T)] [],
      idToCluster = \<lparr>cache = Some \<lparr>size_lru = MaxInt,
                                    evictList = [(1, \<lparr>tokens = T, id' = 1, size' = k\<rparr>)]\<rparr>\<rparr>,
      clustersCounter = 1\<rparr>"

section \<open>Clusters of the empty line\<close>



section \<open>The built-in tokenizer\<close>

lemma Split_space_nonempty: "Split_space s \<noteq> []"
  by (induction s) (auto split: list.splits)

lemma TrimSpace_whitespace:
  assumes "list_all IsSpace s"
  shows "TrimSpace s = []"
proof -
  have drop: "dropWhile IsSpace s = []"
    using assms by (induction s) auto
  show ?thesis
    unfolding TrimSpace_def drop by simp
qed

lemma Itoa_1: "Itoa (Suc 0) = ''1''"
  by code_simp




text \<open>
  C10.  On a string of white space only (the empty string too) \<open>SpaceTokenizer\<close> returns
  the one-element sequence holding the empty string.  The search of \<open>Train\<close> and
  \<open>Match\<close> then goes to the first-level node for the token count 1 and scans its
  bucket, and the insertion writes to that bucket.  On no string does
  \<open>SpaceTokenizer\<close> return the empty sequence, so the zero-token branches of search
  and insertion need another tokenizer.
\<close>

theorem SpaceTokenizer_whitespace:
  "(list_all IsSpace s \<longrightarrow>
      SpaceTokenizer s = ['''']
    \<and> Itoa (length (SpaceTokenizer s)) = ''1''
    \<and> treeSearch cfg order c rnode (SpaceTokenizer s) simTh includeParams =
        (case map_of (keyToChildNode rnode) ''1'' of
           None \<Rightarrow> Inr (None, c)
         | Some curNode \<Rightarrow> fastMatch cfg c (clusterIDs curNode) [''''] simTh includeParams)
    \<and> (tokens cluster = SpaceTokenizer s \<longrightarrow>
        addSeqToPrefixTree cfg order c rnode cluster =
          (let firstLayerNode = (case map_of (keyToChildNode rnode) ''1'' of
                                   None \<Rightarrow> createNode | Some n \<Rightarrow> n)
           in case prune_loop (clusterIDs firstLayerNode) c [] of
                Inl e \<Rightarrow> Inl e
              | Inr (newClusterIDs, c') \<Rightarrow>
                  Inr (c', Node (AList.update ''1''
                                   (Node (keyToChildNode firstLayerNode) (newClusterIDs @ [id' cluster]))
                                   (keyToChildNode rnode))
                                (clusterIDs rnode)))))
   \<and> SpaceTokenizer s' \<noteq> []"
proof -
  have nonempty: "SpaceTokenizer s' \<noteq> []"
    by (simp add: SpaceTokenizer_def Split_space_nonempty)
  have "SpaceTokenizer s = ['''']" if "list_all IsSpace s"
    using that by (simp add: SpaceTokenizer_def TrimSpace_whitespace)
  then show ?thesis
    using nonempty
    by (auto simp: Itoa_1 treeSearch_def addSeqToPrefixTree_def Let_def
             split: option.splits sum.splits prod.splits)
qed

theorem SpaceTokenizer_whitespace_witness:
  "list_all IsSpace [CHR '' '', CHR 0x09, CHR '' '']
   \<and> SpaceTokenizer [CHR '' '', CHR 0x09, CHR '' ''] = ['''']
   \<and> Itoa (length (SpaceTokenizer [CHR '' '', CHR 0x09, CHR '' ''])) = ''1''
   \<and> SpaceTokenizer ''a  b'' = [''a'', '''', ''b'']"
proof -
  have ws: "list_all IsSpace [CHR '' '', CHR 0x09, CHR '' '']"
    by (simp add: IsSpace_def)
  have "SpaceTokenizer ''a  b'' = [''a'', '''', ''b'']"
    by (simp add: SpaceTokenizer_def TrimSpace_def IsSpace_def)
  with ws show ?thesis
    using SpaceTokenizer_whitespace [of "[CHR '' '', CHR 0x09, CHR '' '']"]
    by (simp add: Itoa_1)
qed

section \<open>Similarity\<close>

lemma getSeqDistance_loop_counts:
  "length template = length incoming \<Longrightarrow>
   getSeqDistance_loop cfg template incoming (a, b) =
     (a + sim_tokens_spec cfg template incoming, b + param_count_spec cfg template)"
proof (induction template incoming arbitrary: a b rule: list_induct2)
  case Nil
  show ?case by (simp add: sim_tokens_spec_def param_count_spec_def)
next
  case (Cons t ts s ss)
  show ?case
    by (simp add: Cons.IH sim_tokens_spec_def param_count_spec_def is_placeholder_def dom_def)
qed

text \<open>
  C4.  For a stored template and incoming tokens of equal length the similarity
  computation returns \<open>sim_tokens / length\<close> (the quotient of \<open>float64\<close>, which is NaN
  for two empty sequences) together with \<open>param_count\<close>, where \<open>sim_tokens\<close> counts
  the positions whose template token is no configured label and equals the incoming
  token, \<open>param_count\<close> counts the positions whose template token is a configured
  label, and \<open>param_count\<close> is added to \<open>sim_tokens\<close> before dividing when
  include-params is requested.
\<close>

theorem getSeqDistance_similarity:
  assumes "length template = length incoming"
  shows "getSeqDistance cfg template incoming includeParams =
           Inr (float_div (sim_tokens_spec cfg template incoming
                            + (if includeParams then param_count_spec cfg template else 0))
                          (length template),
                param_count_spec cfg template)
       \<and> (template \<noteq> [] \<longrightarrow>
            map_sum id fst (getSeqDistance cfg template incoming includeParams) =
              Inr (Finite (of_nat (sim_tokens_spec cfg template incoming
                                    + (if includeParams then param_count_spec cfg template else 0))
                           / of_nat (length template))))"
proof -
  have loop: "getSeqDistance_loop cfg template incoming (0, 0) =
                (sim_tokens_spec cfg template incoming, param_count_spec cfg template)"
    using getSeqDistance_loop_counts [OF assms, of cfg 0 0] by simp
  have "length template \<noteq> 0" if "template \<noteq> []"
    using that by simp
  then show ?thesis
    using assms by (simp add: getSeqDistance_def loop float_div_def)
qed

theorem getSeqDistance_similarity_witness:
  "length [''Hex'', ''number'', ''{hex}''] = length [''Hex'', ''count'', ''0x10'']
   \<and> sim_tokens_spec demo_config [''Hex'', ''number'', ''{hex}''] [''Hex'', ''count'', ''0x10''] = 1
   \<and> param_count_spec demo_config [''Hex'', ''number'', ''{hex}''] = 1
   \<and> getSeqDistance demo_config [''Hex'', ''number'', ''{hex}''] [''Hex'', ''count'', ''0x10''] False
       = Inr (Finite (1 / 3), 1)
   \<and> getSeqDistance demo_config [''Hex'', ''number'', ''{hex}''] [''Hex'', ''count'', ''0x10''] True
       = Inr (Finite (2 / 3), 1)"
proof -
  have len: "length [''Hex'', ''number'', ''{hex}''] = length [''Hex'', ''count'', ''0x10'']"
    by simp
  have s: "sim_tokens_spec demo_config [''Hex'', ''number'', ''{hex}''] [''Hex'', ''count'', ''0x10''] = 1"
    by (simp add: sim_tokens_spec_def is_placeholder_def demo_config_def NewConfig_def DefaultConfig_def)
  have p: "param_count_spec demo_config [''Hex'', ''number'', ''{hex}''] = 1"
    by (simp add: param_count_spec_def is_placeholder_def demo_config_def NewConfig_def DefaultConfig_def)
  show ?thesis
    using getSeqDistance_similarity [OF len, of demo_config False]
          getSeqDistance_similarity [OF len, of demo_config True]
    by (simp add: s p float_div_def)
qed

section \<open>The parameter classifier\<close>

lemma getParamString_loop_split:
  "(\<exists>pre label post re.
       order = pre @ label # post \<and> pats label = Some re \<and> MatchString re token
     \<and> (\<forall>l\<in>set pre. \<forall>r. pats l = Some r \<longrightarrow> \<not> MatchString r token)
     \<and> getParamString_loop pats order token = label)
   \<or> ((\<forall>l\<in>set order. \<forall>r. pats l = Some r \<longrightarrow> \<not> MatchString r token)
      \<and> getParamString_loop pats order token = [])"
proof (induction order)
  case Nil
  show ?case by simp
next
  case (Cons l ls)
  show ?case
  proof (cases "\<exists>re. pats l = Some re \<and> MatchString re token")
    case True
    then obtain re where "pats l = Some re" "MatchString re token" by blast
    then have "l # ls = [] @ l # ls \<and> pats l = Some re \<and> MatchString re token
        \<and> (\<forall>l'\<in>set []. \<forall>r. pats l' = Some r \<longrightarrow> \<not> MatchString r token)
        \<and> getParamString_loop pats (l # ls) token = l"
      by simp
    then show ?thesis by blast
  next
    case False
    then have skip: "getParamString_loop pats (l # ls) token = getParamString_loop pats ls token"
      by (auto split: option.splits)
    from Cons.IH show ?thesis
    proof (elim disjE exE conjE)
      fix pre label post re
      assume "ls = pre @ label # post" "pats label = Some re" "MatchString re token"
        "\<forall>l\<in>set pre. \<forall>r. pats l = Some r \<longrightarrow> \<not> MatchString r token"
        "getParamString_loop pats ls token = label"
      with False skip
      have "l # ls = (l # pre) @ label # post \<and> pats label = Some re \<and> MatchString re token
          \<and> (\<forall>l'\<in>set (l # pre). \<forall>r. pats l' = Some r \<longrightarrow> \<not> MatchString r token)
          \<and> getParamString_loop pats (l # ls) token = label"
        by auto
      then show ?thesis by blast
    next
      assume "\<forall>l\<in>set ls. \<forall>r. pats l = Some r \<longrightarrow> \<not> MatchString r token"
        "getParamString_loop pats ls token = []"
      with False skip show ?thesis by auto
    qed
  qed
qed

lemma getParamString_cases:
  assumes "range_order cfg order"
  shows "(\<exists>pre label post re.
            order = pre @ label # post \<and> ParamPatterns cfg label = Some re \<and> MatchString re token
          \<and> (\<forall>l\<in>set pre. \<forall>r. ParamPatterns cfg l = Some r \<longrightarrow> \<not> MatchString r token)
          \<and> getParamString cfg order token = label)
       \<or> ((\<forall>l r. ParamPatterns cfg l = Some r \<longrightarrow> \<not> MatchString r token)
          \<and> getParamString cfg order token = [])"
proof -
  have all: "l \<in> set order" if "ParamPatterns cfg l = Some r" for l r
    using assms that by (auto simp: range_order_def)
  show ?thesis
    using getParamString_loop_split [of order "ParamPatterns cfg" token] all
    unfolding getParamString_def by blast
qed

text \<open>
  C5 (as the code has it).  For every token the classifier returns the first label, in
  the order in which this run of the loop visits the map, whose regex matches somewhere
  in the token: \<open>MatchString\<close> searches the token for a match and does not ask that the
  match be the whole token (a pattern written with \<open>^\<close> and \<open>$\<close> does).  It returns
  the empty string when no configured regex matches anywhere in the token.
\<close>

theorem getParamString_first_match:
  assumes "range_order cfg order"
  shows "(\<exists>pre label post re.
            order = pre @ label # post \<and> ParamPatterns cfg label = Some re \<and> MatchString re token
          \<and> (\<forall>l\<in>set pre. \<forall>r. ParamPatterns cfg l = Some r \<longrightarrow> \<not> MatchString r token)
          \<and> getParamString cfg order token = label)
       \<or> ((\<forall>l r. ParamPatterns cfg l = Some r \<longrightarrow> \<not> MatchString r token)
          \<and> getParamString cfg order token = [])"
  using assms by (rule getParamString_cases)

theorem getParamString_first_match_witness:
  "range_order demo_config (name_first InSearch 0)
   \<and> getParamString demo_config (name_first InSearch 0) ''0x10'' = ''{name}''
   \<and> getParamString demo_config (name_first InSearch 0) ''a-b'' = []"
proof -
  have ro: "range_order demo_config (name_first InSearch 0)"
    by (auto simp: range_order_def name_first_def demo_config_def NewConfig_def)
  have a: "getParamString demo_config (name_first InSearch 0) ''0x10'' = ''{name}''"
    by code_simp
  have b: "getParamString demo_config (name_first InSearch 0) ''a-b'' = []"
    by code_simp
  show ?thesis
    using getParamString_first_match [OF ro, of "''a-b''"] ro a b by simp
qed

theorem getParamString_substring_counterexample:
  "range_order number_config [''{num}'']
   \<and> ParamPatterns number_config ''{num}'' = Some (Plus digit_re)
   \<and> \<not> fullMatch (Plus digit_re) ''abc123''
   \<and> getParamString number_config [''{num}''] ''abc123'' = ''{num}''"
proof -
  have "range_order number_config [''{num}'']"
    by (auto simp: range_order_def number_config_def NewConfig_def)
  moreover have "ParamPatterns number_config ''{num}'' = Some (Plus digit_re)"
    by (simp add: number_config_def NewConfig_def)
  moreover have "\<not> fullMatch (Plus digit_re) ''abc123''"
    by code_simp
  moreover have "getParamString number_config [''{num}''] ''abc123'' = ''{num}''"
    by code_simp
  ultimately show ?thesis by simp
qed

section \<open>Template update\<close>

lemma createTemplate_loop_nth:
  "length source = length target \<Longrightarrow>
   length (createTemplate_loop cfg order k source target) = length target
   \<and> (\<forall>i<length target.
        createTemplate_loop cfg order k source target ! i =
          (if source ! i = target ! i then target ! i
           else getParamString cfg (order (k + i)) (source ! i)))"
proof (induction source target arbitrary: k rule: list_induct2)
  case Nil
  show ?case by simp
next
  case (Cons s ss t ts)
  show ?case
  proof (intro conjI allI impI)
    show "length (createTemplate_loop cfg order k (s # ss) (t # ts)) = length (t # ts)"
      using Cons.IH [of "Suc k"] by simp
  next
    fix i
    assume "i < length (t # ts)"
    then show "createTemplate_loop cfg order k (s # ss) (t # ts) ! i =
          (if (s # ss) ! i = (t # ts) ! i then (t # ts) ! i
           else getParamString cfg (order (k + i)) ((s # ss) ! i))"
      using Cons.IH [of "Suc k"] by (cases i) auto
  qed
qed

lemma Train_matched:
  assumes "treeSearch (config d) (orc InSearch) (idToCluster d) (rootNode d)
             (Tokenizer (config d) content) (SimTh (config d)) False = Inr (Some T, c1)"
      and "Train orc content d = Inr (T', d')"
  shows "createTemplate (config d) (orc InTemplate) (Tokenizer (config d) content) (tokens T)
           = Inr (tokens T')
       \<and> id' T' = id' T \<and> size' T' = size' T + 1"
  using assms
  by (auto simp: Train_def Let_def split: sum.splits)

text \<open>
  C3 (as the code has it).  When a \<open>Train\<close> call matches the cluster with template \<open>T\<close>
  for the incoming tokens \<open>S\<close>, both have the same length \<open>n\<close> and the new template
  \<open>T'\<close> has \<open>T'[i] = T[i]\<close> wherever \<open>T[i] = S[i]\<close>; at every other position
  \<open>T'[i]\<close> is the classifier's label for the incoming token \<open>S[i]\<close>.
\<close>

theorem Train_template_update:
  assumes "treeSearch (config d) (orc InSearch) (idToCluster d) (rootNode d)
             (Tokenizer (config d) content) (SimTh (config d)) False = Inr (Some T, c1)"
      and "Train orc content d = Inr (T', d')"
  shows "length (Tokenizer (config d) content) = length (tokens T)
       \<and> length (tokens T') = length (tokens T)
       \<and> (\<forall>i<length (tokens T).
            tokens T' ! i =
              (if tokens T ! i = Tokenizer (config d) content ! i then tokens T ! i
               else getParamString (config d) (orc InTemplate i) (Tokenizer (config d) content ! i)))"
proof -
  let ?S = "Tokenizer (config d) content"
  have ct: "createTemplate (config d) (orc InTemplate) ?S (tokens T) = Inr (tokens T')"
    using Train_matched [OF assms] by simp
  then have len: "length ?S = length (tokens T)"
    by (auto simp: createTemplate_def split: if_splits)
  with ct have "tokens T' = createTemplate_loop (config d) (orc InTemplate) 0 ?S (tokens T)"
    by (simp add: createTemplate_def)
  with createTemplate_loop_nth [OF len, of "config d" "orc InTemplate" 0] len
  show ?thesis by auto
qed

theorem Train_template_update_witness:
  "\<exists>d T c1 T' d'.
      train_lines hex_first [''Hex number 0x10''] demo_config = Inr d
    \<and> treeSearch (config d) (hex_first InSearch) (idToCluster d) (rootNode d)
         (Tokenizer (config d) ''Hex count 0x10'') (SimTh (config d)) False = Inr (Some T, c1)
    \<and> Train hex_first ''Hex count 0x10'' d = Inr (T', d')
    \<and> tokens T = [''Hex'', ''number'', ''0x10'']
    \<and> tokens T' = [''Hex'', ''{name}'', ''0x10'']
    \<and> length (tokens T') = length (tokens T)"
proof -
  have "case train_lines hex_first [''Hex number 0x10''] demo_config of
          Inl e \<Rightarrow> False
        | Inr d \<Rightarrow>
            (case treeSearch (config d) (hex_first InSearch) (idToCluster d) (rootNode d)
                    (Tokenizer (config d) ''Hex count 0x10'') (SimTh (config d)) False of
               Inr (Some T, c1) \<Rightarrow>
                 tokens T = [''Hex'', ''number'', ''0x10'']
                 \<and> (case Train hex_first ''Hex count 0x10'' d of
                       Inr (T', d') \<Rightarrow> tokens T' = [''Hex'', ''{name}'', ''0x10'']
                     | Inl e \<Rightarrow> False)
             | _ \<Rightarrow> False)"
    by code_simp
  then obtain d T c1 T' d' where
    run: "train_lines hex_first [''Hex number 0x10''] demo_config = Inr d"
    and search: "treeSearch (config d) (hex_first InSearch) (idToCluster d) (rootNode d)
         (Tokenizer (config d) ''Hex count 0x10'') (SimTh (config d)) False = Inr (Some T, c1)"
    and train: "Train hex_first ''Hex count 0x10'' d = Inr (T', d')"
    and toks: "tokens T = [''Hex'', ''number'', ''0x10'']" "tokens T' = [''Hex'', ''{name}'', ''0x10'']"
    by (auto split: sum.splits option.splits prod.splits)
  from Train_template_update [OF search train]
  have "length (tokens T') = length (tokens T)"
    by simp
  with run search train toks show ?thesis
    by blast
qed

theorem Train_template_update_counterexample:
  "(case train_lines hex_first [''Hex number 0x10''] demo_config of
      Inl e \<Rightarrow> Inl e
    | Inr d \<Rightarrow> map_sum id fst (Train hex_first ''Hex number 10.0.0.1'' d))
     = Inr \<lparr>tokens = [''Hex'', ''number'', ''''], id' = 1, size' = 2\<rparr>
   \<and> (case train_lines hex_first [''Hex number 0x10''] demo_config of
        Inl e \<Rightarrow> Inl e
      | Inr d \<Rightarrow> map_sum id (map_option tokens \<circ> fst)
                   (treeSearch (config d) (hex_first InSearch) (idToCluster d) (rootNode d)
                      (Tokenizer (config d) ''Hex number 10.0.0.1'') (SimTh (config d)) False))
       = Inr (Some [''Hex'', ''number'', ''0x10''])
   \<and> getParamString demo_config (hex_first InTemplate 2) ''0x10'' = ''{hex}''
   \<and> getParamString demo_config (name_first InTemplate 2) ''0x10'' = ''{name}''
   \<and> getParamString demo_config (hex_first InTemplate 2) ''10.0.0.1'' = ''''"
  by code_simp


section \<open>Determinism of the classifier\<close>

lemma getParamString_label_or_none:
  assumes "range_order cfg order"
  shows "(\<exists>re. ParamPatterns cfg (getParamString cfg order token) = Some re \<and> MatchString re token)
       \<or> ((\<forall>l r. ParamPatterns cfg l = Some r \<longrightarrow> \<not> MatchString r token)
          \<and> getParamString cfg order token = [])"
proof -
  from getParamString_cases [OF assms, of token]
  consider (hit) label re where "ParamPatterns cfg label = Some re" "MatchString re token"
      "getParamString cfg order token = label"
    | (miss) "\<forall>l r. ParamPatterns cfg l = Some r \<longrightarrow> \<not> MatchString r token"
      "getParamString cfg order token = []"
    by (elim disjE exE conjE)
  then show ?thesis
  proof cases
    case hit
    then show ?thesis by simp
  next
    case miss
    then show ?thesis by simp
  qed
qed

lemma getParamString_order_irrelevant:
  assumes "range_order cfg o1" and "range_order cfg o2" and "unambiguous cfg token"
  shows "getParamString cfg o1 token = getParamString cfg o2 token"
proof -
  let ?a = "getParamString cfg o1 token" and ?b = "getParamString cfg o2 token"
  note c1 = getParamString_label_or_none [OF assms(1), of token]
  note c2 = getParamString_label_or_none [OF assms(2), of token]
  show ?thesis
  proof (cases "\<exists>l r. ParamPatterns cfg l = Some r \<and> MatchString r token")
    case True
    with c1 obtain r1 where r1: "ParamPatterns cfg ?a = Some r1" "MatchString r1 token"
      by blast
    from True c2 obtain r2 where r2: "ParamPatterns cfg ?b = Some r2" "MatchString r2 token"
      by blast
    from assms(3) r1 r2 show ?thesis
      unfolding unambiguous_def by blast
  next
    case False
    with c1 c2 show ?thesis by auto
  qed
qed

lemma treeSearch_loop_orders:
  assumes "\<forall>t\<in>set toks. \<forall>i j. getParamString cfg (oA i) t = getParamString cfg (oB j) t"
  shows "treeSearch_loop cfg oA n l i toks node = treeSearch_loop cfg oB n l i toks node"
  using assms
proof (induction toks arbitrary: l i node)
  case Nil
  show ?case by simp
next
  case (Cons t ts)
  then have "getParamString cfg (oA i) t = getParamString cfg (oB i) t"
    and "\<forall>t\<in>set ts. \<forall>i j. getParamString cfg (oA i) t = getParamString cfg (oB j) t"
    by auto
  with Cons.IH show ?case
    by (simp split: option.splits)
qed

lemma addSeq_loop_orders:
  assumes "\<forall>t\<in>set toks. \<forall>i j. getParamString cfg (oA i) t = getParamString cfg (oB j) t"
  shows "addSeq_loop cfg oA cid n l i toks c node = addSeq_loop cfg oB cid n l i toks c node"
  using assms
proof (induction toks arbitrary: l i node c)
  case Nil
  show ?case by simp
next
  case (Cons t ts)
  then have "getParamString cfg (oA i) t = getParamString cfg (oB i) t"
    and rest: "\<forall>t\<in>set ts. \<forall>i j. getParamString cfg (oA i) t = getParamString cfg (oB j) t"
    by auto
  then have "nextNode cfg (oA i) t node = nextNode cfg (oB i) t node"
    by (simp add: nextNode_def Let_def cong: option.case_cong if_cong)
  with Cons.IH [OF rest] show ?case
    by (simp split: option.splits)
qed

lemma createTemplate_loop_orders:
  assumes "\<forall>t\<in>set source. \<forall>i j. getParamString cfg (oA i) t = getParamString cfg (oB j) t"
  shows "createTemplate_loop cfg oA k source target = createTemplate_loop cfg oB k source target"
  using assms
proof (induction cfg oA k source target rule: createTemplate_loop.induct)
  case (1 cfg order i s source t target)
  then show ?case by auto
qed simp_all

lemma Train_orders:
  assumes "\<forall>t\<in>set (Tokenizer (config d) content). \<forall>s s' i j.
             getParamString (config d) (orcA s i) t = getParamString (config d) (orcB s' j) t"
  shows "Train orcA content d = Train orcB content d"
proof -
  let ?toks = "Tokenizer (config d) content"
  have agree: "\<forall>t\<in>set ?toks. \<forall>i j.
      getParamString (config d) (orcA s i) t = getParamString (config d) (orcB s j) t" for s
    using assms by blast
  have search: "treeSearch (config d) (orcA InSearch) c rn ?toks th inc
              = treeSearch (config d) (orcB InSearch) c rn ?toks th inc" for c rn th inc
    by (simp add: treeSearch_def treeSearch_loop_orders [OF agree [of InSearch]]
             cong: option.case_cong if_cong)
  have insert: "addSeqToPrefixTree (config d) (orcA InInsert) c rn cl
              = addSeqToPrefixTree (config d) (orcB InInsert) c rn cl"
    if "tokens cl = ?toks" for c rn cl
    using addSeq_loop_orders [OF agree [of InInsert]] that
    by (simp add: addSeqToPrefixTree_def Let_def)
  have template: "createTemplate (config d) (orcA InTemplate) ?toks tgt
                = createTemplate (config d) (orcB InTemplate) ?toks tgt" for tgt
    by (simp add: createTemplate_def createTemplate_loop_orders [OF agree [of InTemplate]])
  show ?thesis
    unfolding Train_def Let_def search template
    by (simp add: insert split: sum.split option.split prod.split)
qed

lemma Match_orders:
  assumes "\<forall>t\<in>set (Tokenizer (config d) content). \<forall>s s' i j.
             getParamString (config d) (orcA s i) t = getParamString (config d) (orcB s' j) t"
  shows "Match orcA content d = Match orcB content d"
proof -
  have "\<forall>t\<in>set (Tokenizer (config d) content). \<forall>i j.
      getParamString (config d) (orcA InSearch i) t = getParamString (config d) (orcB InSearch j) t"
    using assms by blast
  then have "treeSearch_loop (config d) (orcA InSearch) n k i (Tokenizer (config d) content) node
           = treeSearch_loop (config d) (orcB InSearch) n k i (Tokenizer (config d) content) node"
    for n k i node
    by (rule treeSearch_loop_orders)
  then show ?thesis
    by (simp add: Match_def treeSearch_def cong: option.case_cong if_cong)
qed


lemma Train_config:
  assumes "Train orc content d = Inr (c, d')"
  shows "config d' = config d"
proof (cases "treeSearch (config d) (orc InSearch) (idToCluster d) (rootNode d)
               (Tokenizer (config d) content) (SimTh (config d)) False")
  case (Inl e)
  with assms show ?thesis by (simp add: Train_def Let_def)
next
  case (Inr r)
  obtain m c1 where r: "r = (m, c1)" by (cases r)
  show ?thesis
  proof (cases m)
    case None
    with assms Inr r show ?thesis
      by (simp add: Train_def Let_def split: sum.splits prod.splits) auto
  next
    case (Some mc)
    with assms Inr r show ?thesis
      by (simp add: Train_def Let_def split: sum.splits prod.splits) auto
  qed
qed

lemma Match_config: "Match orc content d = Inr (c, d') \<Longrightarrow> config d' = config d"
  by (auto simp: Match_def Let_def split: sum.splits prod.splits)

lemma run_call_config: "run_call orc c d = Inr d' \<Longrightarrow> config d' = config d"
  by (cases c) (auto simp: map_sum_def dest: Train_config Match_config split: sum.splits)



lemma run_call_orders:
  assumes "valid_orders (config d) orcA" and "valid_orders (config d) orcB"
      and "\<forall>t\<in>set (Tokenizer (config d) (call_line c)). unambiguous (config d) t"
  shows "run_call orcA c d = run_call orcB c d"
proof -
  have "getParamString (config d) (orcA s i) t = getParamString (config d) (orcB s' j) t"
    if "t \<in> set (Tokenizer (config d) (call_line c))" for t s s' i j
  proof (rule getParamString_order_irrelevant)
    show "range_order (config d) (orcA s i)"
      using assms(1) by (simp add: valid_orders_def)
    show "range_order (config d) (orcB s' j)"
      using assms(2) by (simp add: valid_orders_def)
    show "unambiguous (config d) t"
      using assms(3) that by simp
  qed
  then have "\<forall>t\<in>set (Tokenizer (config d) (call_line c)). \<forall>s s' i j.
          getParamString (config d) (orcA s i) t = getParamString (config d) (orcB s' j) t"
    by simp
  then have agree: "\<forall>t\<in>set (Tokenizer (config d) (call_line c)). \<forall>s s' i j.
          getParamString (config d) (orcA s i) t = getParamString (config d) (orcB s' j) t" .
  show ?thesis
  proof (cases c)
    case (CallTrain content)
    with agree have "Train orcA content d = Train orcB content d"
      by (intro Train_orders) simp
    with CallTrain show ?thesis by simp
  next
    case (CallMatch content)
    with agree have "Match orcA content d = Match orcB content d"
      by (intro Match_orders) simp
    with CallMatch show ?thesis by simp
  qed
qed

lemma run_calls_orders:
  assumes "length orcsA = length calls" and "length orcsB = length calls"
      and "\<forall>orc\<in>set orcsA \<union> set orcsB. valid_orders (config d) orc"
      and "\<forall>c\<in>set calls. \<forall>t\<in>set (Tokenizer (config d) (call_line c)). unambiguous (config d) t"
  shows "run_calls (zip orcsA calls) d = run_calls (zip orcsB calls) d"
  using assms
proof (induction calls arbitrary: orcsA orcsB d)
  case Nil
  then show ?case by simp
next
  case (Cons c cs)
  from Cons.prems(1) obtain a as where A: "orcsA = a # as" "length as = length cs"
    by (cases orcsA) auto
  from Cons.prems(2) obtain b bs where B: "orcsB = b # bs" "length bs = length cs"
    by (cases orcsB) auto
  have va: "valid_orders (config d) a" and vb: "valid_orders (config d) b"
    using Cons.prems(3) A B by simp_all
  have uc: "\<forall>t\<in>set (Tokenizer (config d) (call_line c)). unambiguous (config d) t"
    using Cons.prems(4) by simp
  have step: "run_call a c d = run_call b c d"
    using va vb uc by (rule run_call_orders)
  show ?case
  proof (cases "run_call b c d")
    case (Inl e)
    with step A B show ?thesis by simp
  next
    case (Inr d')
    then have cfg: "config d' = config d"
      by (rule run_call_config)
    have v': "\<forall>orc\<in>set as \<union> set bs. valid_orders (config d') orc"
      using Cons.prems(3) A B cfg by simp
    have u': "\<forall>c\<in>set cs. \<forall>t\<in>set (Tokenizer (config d') (call_line c)). unambiguous (config d') t"
      using Cons.prems(4) cfg by simp
    have "run_calls (zip as cs) d' = run_calls (zip bs cs) d'"
      using A(2) B(2) v' u' by (rule Cons.IH)
    with step Inr A B show ?thesis by simp
  qed
qed

lemma demo_config_orders:
  "range_order demo_config (hex_first s i)" "range_order demo_config (name_first s i)"
  by (auto simp: range_order_def hex_first_def name_first_def demo_config_def NewConfig_def)

lemma demo_config_unambiguous:
  assumes "\<not> MatchString hex_re t"
  shows "unambiguous demo_config t"
  using assms
  by (auto simp: unambiguous_def demo_config_def NewConfig_def split: if_splits)

text \<open>
  C6 (as the code has it).  Under one configuration, two runs of the classifier on a
  token return the same label whatever orders the two loops take over the map, provided
  at most one configured regex matches the token; and two runs of the learner over the
  same sequence of calls end alike (the same panic, or the same state and so the same
  tree) provided that holds for every token of every line.  Where several regexes match
  a token the label is the one the loop happens to visit first.
\<close>

theorem classifier_deterministic:
  "(range_order cfg o1 \<and> range_order cfg o2 \<and> unambiguous cfg token
      \<longrightarrow> getParamString cfg o1 token = getParamString cfg o2 token)
   \<and> (length orcsA = length calls \<and> length orcsB = length calls
      \<and> (\<forall>orc\<in>set orcsA \<union> set orcsB. valid_orders (config d) orc)
      \<and> (\<forall>c\<in>set calls. \<forall>t\<in>set (Tokenizer (config d) (call_line c)). unambiguous (config d) t)
      \<longrightarrow> run_calls (zip orcsA calls) d = run_calls (zip orcsB calls) d)"
  using getParamString_order_irrelevant [of cfg o1 o2 token]
        run_calls_orders [of orcsA calls orcsB d]
  by blast

theorem classifier_deterministic_witness:
  "range_order demo_config (hex_first InSearch 0) \<and> range_order demo_config (name_first InSearch 0)
   \<and> unambiguous demo_config ''user''
   \<and> getParamString demo_config (hex_first InSearch 0) ''user''
       = getParamString demo_config (name_first InSearch 0) ''user''
   \<and> (\<exists>d d'. New demo_config = Inr d
        \<and> run_calls (zip [hex_first, hex_first, hex_first]
             [CallTrain ''user alice'', CallTrain ''user bob'', CallMatch ''user carol'']) d = Inr d'
        \<and> run_calls (zip [name_first, name_first, name_first]
             [CallTrain ''user alice'', CallTrain ''user bob'', CallMatch ''user carol'']) d = Inr d')"
proof -
  let ?calls = "[CallTrain ''user alice'', CallTrain ''user bob'', CallMatch ''user carol'']"
  let ?A = "[hex_first, hex_first, hex_first]" and ?B = "[name_first, name_first, name_first]"
  have nohex: "\<not> MatchString hex_re ''user''" "\<not> MatchString hex_re ''alice''"
    "\<not> MatchString hex_re ''bob''" "\<not> MatchString hex_re ''carol''"
    by code_simp+
  obtain d where d: "New demo_config = Inr d"
    by (simp add: New_def demo_config_def NewConfig_def DefaultConfig_def)
  then have cfg: "config d = demo_config\<lparr>maxNodeDepth := 2\<rparr>"
    by (auto simp: New_def demo_config_def NewConfig_def DefaultConfig_def split: if_splits)
  have ro: "range_order (config d) (hex_first s i)" "range_order (config d) (name_first s i)" for s i
    using demo_config_orders [of s i] by (simp_all add: cfg range_order_def)
  have un: "unambiguous (config d) t" if "\<not> MatchString hex_re t" for t
    using demo_config_unambiguous [OF that] by (simp add: cfg unambiguous_def)
  have tok: "Tokenizer (config d) = SpaceTokenizer"
    by (simp add: cfg demo_config_def NewConfig_def)
  have toks: "SpaceTokenizer ''user alice'' = [''user'', ''alice'']"
    "SpaceTokenizer ''user bob'' = [''user'', ''bob'']"
    "SpaceTokenizer ''user carol'' = [''user'', ''carol'']"
    by code_simp+
  have h: "length ?A = length ?calls \<and> length ?B = length ?calls
      \<and> (\<forall>orc\<in>set ?A \<union> set ?B. valid_orders (config d) orc)
      \<and> (\<forall>c\<in>set ?calls. \<forall>t\<in>set (Tokenizer (config d) (call_line c)). unambiguous (config d) t)"
    using ro un nohex by (auto simp: valid_orders_def tok toks)
  have eq: "run_calls (zip ?A ?calls) d = run_calls (zip ?B ?calls) d"
    using classifier_deterministic [of demo_config "hex_first InSearch 0" "name_first InSearch 0"
        "''user''" ?A ?calls ?B d] h
    by blast
  have "case New demo_config of Inl e \<Rightarrow> False
        | Inr d \<Rightarrow> (case run_calls (zip ?A ?calls) d of Inl e \<Rightarrow> False | Inr d' \<Rightarrow> True)"
    by code_simp
  with d obtain d' where d': "run_calls (zip ?A ?calls) d = Inr d'"
    by (auto split: sum.splits)
  have cl: "getParamString demo_config (hex_first InSearch 0) ''user''
       = getParamString demo_config (name_first InSearch 0) ''user''"
    using classifier_deterministic [of demo_config "hex_first InSearch 0" "name_first InSearch 0"
        "''user''" ?A ?calls ?B d] demo_config_orders demo_config_unambiguous [OF nohex(1)]
    by blast
  from d' have d'': "run_calls (zip ?B ?calls) d = Inr d'"
    unfolding eq .
  from d d' d'' have "\<exists>d d'. New demo_config = Inr d
        \<and> run_calls (zip ?A ?calls) d = Inr d' \<and> run_calls (zip ?B ?calls) d = Inr d'"
    by blast
  with demo_config_orders [of InSearch 0] demo_config_unambiguous [OF nohex(1)] cl
  show ?thesis
    by blast
qed

theorem classifier_deterministic_counterexample:
  "getParamString demo_config (hex_first InInsert 0) ''0x10'' = ''{hex}''
   \<and> getParamString demo_config (name_first InInsert 0) ''0x10'' = ''{name}''
   \<and> map_sum id rootNode (train_lines hex_first [''0x10 up''] demo_config)
       = Inr (Node [(''2'', Node [(''{hex}'', Node [] [1])] [])] [])
   \<and> map_sum id rootNode (train_lines name_first [''0x10 up''] demo_config)
       = Inr (Node [(''2'', Node [(''{name}'', Node [] [1])] [])] [])
   \<and> range_order demo_config (hex_first InInsert 0)
   \<and> range_order demo_config (name_first InInsert 0)"
proof -
  have "getParamString demo_config (hex_first InInsert 0) ''0x10'' = ''{hex}''"
    by code_simp
  moreover have "getParamString demo_config (name_first InInsert 0) ''0x10'' = ''{name}''"
    by code_simp
  moreover have "map_sum id rootNode (train_lines hex_first [''0x10 up''] demo_config)
       = Inr (Node [(''2'', Node [(''{hex}'', Node [] [1])] [])] [])"
    by code_simp
  moreover have "map_sum id rootNode (train_lines name_first [''0x10 up''] demo_config)
       = Inr (Node [(''2'', Node [(''{name}'', Node [] [1])] [])] [])"
    by code_simp
  ultimately show ?thesis
    using demo_config_orders by simp
qed


section \<open>Match\<close>








section \<open>Match and the recency order\<close>

text \<open>
  C2 (the code at a failing input).  After training \<open>a b\<close> and \<open>c d e\<close> cluster 1 is the
  least recently used.  \<open>Match\<close> of \<open>a b\<close> scores cluster 1 through
  \<open>ClusterCache.Get\<close>, which marks it most recently used: the recency order of the
  state after the call differs from the one before it.
\<close>

theorem Match_touches_recency:
  "map_sum id recency (train_lines star_only [''a b'', ''c d e''] DefaultConfig) = Inr (Some [1, 2])
   \<and> (case train_lines star_only [''a b'', ''c d e''] DefaultConfig of
        Inl e \<Rightarrow> Inl e
      | Inr d \<Rightarrow> map_sum id (\<lambda>r. (map_option id' (fst r), recency (snd r)))
                   (Match star_only ''a b'' d))
       = Inr (Some 1, Some [2, 1])"
  by code_simp

section \<open>Insertion into a saturated node\<close>

text \<open>
  C9 (the code at a failing input).  With at most two children per node, the lines
  \<open>alpha x y\<close> and \<open>beta x y\<close> fill the node for three tokens with the literal child
  \<open>alpha\<close> and the wildcard child \<open>{name}\<close>.  The token \<open>a-b\<close> has no digit, no literal
  child, and no pattern matches it, so its label is the empty string, under which the
  node has no child: the branch for \<open>k + 1 > MaxChildren\<close> is taken, the current node
  becomes nil and the next iteration panics.
\<close>

theorem addSeqToPrefixTree_nil_child:
  "map_sum id rootNode (train_lines hex_first [''alpha x y'', ''beta x y''] narrow_config)
     = Inr (Node [(''3'', Node [(''alpha'', Node [] [1]), (''{name}'', Node [] [2])] [])] [])
   \<and> \<not> hasNumbers ''a-b''
   \<and> getParamString narrow_config (hex_first InInsert 0) ''a-b'' = ''''
   \<and> nextNode narrow_config (hex_first InInsert 0) ''a-b''
        (Node [(''alpha'', Node [] [1]), (''{name}'', Node [] [2])] []) = None
   \<and> map_sum id rootNode
        (train_lines hex_first [''alpha x y'', ''beta x y'', ''a-b x y''] narrow_config)
     = Inl NilPointerDereference"
  by code_simp


section \<open>Bounds on the tree\<close>





















lemma star_close_keeps: "set acc \<subseteq> set (star_close f n acc)"
proof (induction n arbitrary: acc)
  case 0
  show ?case by simp
next
  case (Suc n)
  have "set acc \<subseteq> set (remdups (acc @ concat (map f acc)))" by auto
  also have "\<dots> \<subseteq> set (star_close f n (remdups (acc @ concat (map f acc))))"
    by (rule Suc.IH)
  finally show ?case by simp
qed

lemma MatchString_Star: "MatchString (Star r) s"
proof -
  have "0 \<in> set (ends (Star r) s 0)"
    using star_close_keeps [of "[0]" "\<lambda>j. ends r s j" "Suc (length s)"] by simp
  then have "ends (Star r) s 0 \<noteq> []"
    by auto
  moreover have "0 \<in> set [0..<Suc (length s)]"
    by simp
  ultimately show ?thesis
    unfolding MatchString_def list_ex_iff by blast
qed




















section \<open>Training the same line repeatedly\<close>

lemma trained_label: "getParamString trained_config (star_only s i) t = ''*''"
  by (simp add: getParamString_def trained_config_def DefaultConfig_def star_only_def MatchString_Star)

lemma trained_fields:
  "maxNodeDepth trained_config = 2" "MaxChildren trained_config = 100"
  "SimTh trained_config = Finite (2 / 5)" "Tokenizer trained_config = SpaceTokenizer"
  "ParamPatterns trained_config t \<noteq> None \<longleftrightarrow> t = ''*''"
  by (simp_all add: trained_config_def DefaultConfig_def)

lemma New_DefaultConfig:
  "New DefaultConfig =
     Inr \<lparr>config = trained_config, rootNode = createNode,
          idToCluster = \<lparr>cache = Some \<lparr>size_lru = MaxInt, evictList = []\<rparr>\<rparr>,
          clustersCounter = 0\<rparr>"
  by (simp add: New_def DefaultConfig_def trained_config_def createClusterCache_def NewLRU_def
      MaxInt_def)

lemma first_insert:
  assumes "T \<noteq> []"
  shows "addSeq_loop trained_config (star_only InInsert) 1 (int (length T)) 1 0 T c createNode
           = Inr (c, first_layer T)"
proof (cases T)
  case Nil
  with assms show ?thesis by simp
next
  case (Cons t0 rest)
  show ?thesis
  proof (cases rest)
    case Nil
    with Cons show ?thesis
      by (simp add: trained_fields first_layer_def createNode_def)
  next
    case (Cons t1 rest')
    have next0: "nextNode trained_config (star_only InInsert 0) t0 createNode
                   = Some (leaf_key T, createNode)"
      using \<open>T = t0 # rest\<close>
      by (simp add: nextNode_def createNode_def trained_label trained_fields leaf_key_def)
    have leaf: "addSeq_loop trained_config (star_only InInsert) 1 (int (length T)) 2 (Suc 0)
                  (t1 # rest') c createNode = Inr (c, Node [] [1])"
      by (simp add: trained_fields createNode_def)
    show ?thesis
      using \<open>T = t0 # rest\<close> Cons next0 leaf
      by (simp add: trained_fields first_layer_def createNode_def)
  qed
qed

lemma first_search:
  assumes "T \<noteq> []"
  shows "\<exists>leaf. treeSearch_loop trained_config (star_only InSearch) (int (length T)) 1 0 T
                  (first_layer T) = Some leaf \<and> clusterIDs leaf = [1]"
proof (cases T)
  case Nil
  with assms show ?thesis by simp
next
  case (Cons t0 rest)
  show ?thesis
  proof (cases rest)
    case Nil
    with Cons show ?thesis
      by (simp add: trained_fields first_layer_def)
  next
    case (Cons t1 rest')
    have "hasNumbers t0 \<Longrightarrow> t0 \<noteq> ''*''"
      by (auto simp: hasNumbers_def IsNumber_def)
    then show ?thesis
      using \<open>T = t0 # rest\<close> Cons
      by (simp add: trained_fields first_layer_def leaf_key_def trained_label)
  qed
qed

lemma sim_tokens_same:
  "sim_tokens_spec cfg T T = length (filter (\<lambda>t. \<not> is_placeholder cfg t) T)"
  by (induction T) (simp_all add: sim_tokens_spec_def)

lemma trained_placeholder: "is_placeholder trained_config t \<longleftrightarrow> t = ''*''"
  by (simp add: is_placeholder_def trained_config_def DefaultConfig_def dom_def)

lemma createTemplate_loop_same: "createTemplate_loop cfg order i T T = T"
  by (induction T arbitrary: i) simp_all

lemma threshold_reached:
  assumes "2 * n \<le> 5 * a" and "n \<noteq> 0"
  shows "float_ge (float_div a n) (Finite (2 / 5))" and "float_gt (float_div a n) (Finite (- 1))"
proof -
  from assms(2) have pos: "(0::rat) < of_nat n" by simp
  from assms(1) have "(of_nat (2 * n) :: rat) \<le> of_nat (5 * a)"
    by (simp only: of_nat_le_iff)
  then have "(2 / 5 :: rat) * of_nat n \<le> of_nat a"
    by simp
  with pos have "(2 / 5 :: rat) \<le> of_nat a / of_nat n"
    by (simp only: pos_le_divide_eq)
  with assms(2) show "float_ge (float_div a n) (Finite (2 / 5))"
    by (simp add: float_div_def)
  have "(0::rat) \<le> of_nat a / of_nat n" by simp
  then have "(- 1 :: rat) < of_nat a / of_nat n" by linarith
  with assms(2) show "float_gt (float_div a n) (Finite (- 1))"
    by (simp add: float_div_def)
qed

lemma repeated_search:
  assumes "T \<noteq> []" and "2 * length T \<le> 5 * length (filter (\<lambda>t. t \<noteq> ''*'') T)"
  shows "treeSearch trained_config (star_only InSearch) (idToCluster (repeated_state T k))
           (rootNode (repeated_state T k)) T (Finite (2 / 5)) False
         = Inr (Some \<lparr>tokens = T, id' = 1, size' = k\<rparr>, idToCluster (repeated_state T k))"
proof -
  let ?cl = "\<lparr>tokens = T, id' = 1, size' = k\<rparr>"
  let ?c = "idToCluster (repeated_state T k)"
  obtain leaf where leaf: "treeSearch_loop trained_config (star_only InSearch) (int (length T)) 1 0 T
        (first_layer T) = Some leaf" "clusterIDs leaf = [1]"
    using first_search [OF assms(1)] by blast
  have get: "ClusterCache_Get 1 ?c = Inr (Some ?cl, ?c)"
    by (simp del: One_nat_def add: ClusterCache_Get_def lru_Get_def moveToFront_def repeated_state_def)
  have count: "sim_tokens_spec trained_config T T = length (filter (\<lambda>t. t \<noteq> ''*'') T)"
    by (simp add: sim_tokens_same trained_placeholder)
  have dist: "getSeqDistance trained_config T T False
        = Inr (float_div (length (filter (\<lambda>t. t \<noteq> ''*'') T)) (length T),
               param_count_spec trained_config T)"
    using getSeqDistance_loop_counts [of T T trained_config 0 0]
    by (simp add: getSeqDistance_def count)
  from assms(1) have n: "length T \<noteq> 0" by simp
  note th = threshold_reached [OF assms(2) n]
  have "fastMatch trained_config ?c [1] T (Finite (2 / 5)) False = Inr (Some ?cl, ?c)"
    using th by (simp del: One_nat_def add: fastMatch_def get dist)
  with leaf assms(1) show ?thesis
    by (simp del: One_nat_def add: treeSearch_def repeated_state_def)
qed

lemma repeated_Train:
  assumes "SpaceTokenizer L = T" and "2 * length T \<le> 5 * length (filter (\<lambda>t. t \<noteq> ''*'') T)"
  shows "Train star_only L (repeated_state T k)
         = Inr (\<lparr>tokens = T, id' = 1, size' = k + 1\<rparr>, repeated_state T (k + 1))"
proof -
  have ne: "T \<noteq> []"
    using assms(1) by (auto simp: SpaceTokenizer_def Split_space_nonempty)
  have cfg: "config (repeated_state T k) = trained_config"
    by (simp add: repeated_state_def)
  have toks: "Tokenizer (config (repeated_state T k)) L = T"
    by (simp add: cfg trained_fields assms(1))
  note search = repeated_search [OF ne assms(2), of k]
  have touch: "ClusterCache_Get 1
       (store_cluster \<lparr>tokens = T, id' = 1, size' = k + 1\<rparr> (idToCluster (repeated_state T k)))
       = Inr (Some \<lparr>tokens = T, id' = 1, size' = k + 1\<rparr>, idToCluster (repeated_state T (k + 1)))"
    by (simp del: One_nat_def add: ClusterCache_Get_def lru_Get_def moveToFront_def
        store_cluster_def repeated_state_def)
  have s: "treeSearch (config (repeated_state T k)) (star_only InSearch)
             (idToCluster (repeated_state T k)) (rootNode (repeated_state T k))
             (Tokenizer (config (repeated_state T k)) L) (SimTh (config (repeated_state T k))) False
           = Inr (Some \<lparr>tokens = T, id' = 1, size' = k\<rparr>, idToCluster (repeated_state T k))"
    unfolding toks unfolding cfg trained_fields by (rule search)
  have t: "createTemplate (config (repeated_state T k)) (star_only InTemplate)
             (Tokenizer (config (repeated_state T k)) L) T = Inr T"
    by (simp add: createTemplate_def createTemplate_loop_same toks)
  have u: "repeated_state T k\<lparr>idToCluster := idToCluster (repeated_state T (k + 1))\<rparr>
           = repeated_state T (k + 1)"
    by (simp add: repeated_state_def)
  show ?thesis
    unfolding Train_def Let_def s
    by (simp del: One_nat_def add: t touch u)
qed

lemma first_Train:
  assumes "SpaceTokenizer L = T" and "New DefaultConfig = Inr d0"
  shows "Train star_only L d0 = Inr (\<lparr>tokens = T, id' = 1, size' = 1\<rparr>, repeated_state T 1)"
proof -
  have ne: "T \<noteq> []"
    using assms(1) by (auto simp: SpaceTokenizer_def Split_space_nonempty)
  from assms(2) have d0: "d0 = \<lparr>config = trained_config, rootNode = createNode,
          idToCluster = \<lparr>cache = Some \<lparr>size_lru = MaxInt, evictList = []\<rparr>\<rparr>,
          clustersCounter = 0\<rparr>"
    by (simp add: New_DefaultConfig)
  have search: "treeSearch trained_config (star_only InSearch) c createNode T th inc = Inr (None, c)"
    for c th inc
    by (simp add: treeSearch_def createNode_def)
  have set: "ClusterCache_Set 1 cl \<lparr>cache = Some \<lparr>size_lru = MaxInt, evictList = []\<rparr>\<rparr>
       = Inr \<lparr>cache = Some \<lparr>size_lru = MaxInt, evictList = [(1, cl)]\<rparr>\<rparr>" for cl
    by (simp del: One_nat_def add: ClusterCache_Set_def lru_Add_def MaxInt_def)
  have ins: "addSeqToPrefixTree trained_config (star_only InInsert) c createNode
               \<lparr>tokens = T, id' = 1, size' = 1\<rparr>
             = Inr (c, Node [(Itoa (length T), first_layer T)] [])" for c
  proof -
    have "addSeq_loop trained_config (star_only InInsert) 1 (int (length T)) 1 0 T c (Node [] [])
            = Inr (c, first_layer T)"
      using first_insert [OF ne, of c] by (simp add: createNode_def)
    with ne show ?thesis
      by (simp del: One_nat_def add: addSeqToPrefixTree_def Let_def createNode_def)
  qed
  show ?thesis
    unfolding Train_def d0 Let_def
    by (simp del: One_nat_def add: trained_fields assms(1) search set ins repeated_state_def)
qed

lemma repeated_run:
  assumes "SpaceTokenizer L = T" and "2 * length T \<le> 5 * length (filter (\<lambda>t. t \<noteq> ''*'') T)"
  shows "run_calls (replicate K (star_only, CallTrain L)) (repeated_state T k)
         = Inr (repeated_state T (k + K))"
proof (induction K arbitrary: k)
  case 0
  show ?case by simp
next
  case (Suc K)
  show ?case
    using Suc.IH [of "k + 1"] by (simp add: repeated_Train [OF assms])
qed

lemma valid_orders_DefaultConfig:
  assumes "valid_orders DefaultConfig orc"
  shows "orc = star_only"
proof (intro ext)
  fix s i
  from assms have "distinct (orc s i)" "set (orc s i) = {''*''}"
    by (simp_all add: valid_orders_def range_order_def DefaultConfig_def)
  then have "orc s i = [''*'']"
    by (cases "orc s i") (auto simp: subset_singleton_iff)
  then show "orc s i = star_only s i"
    by (simp add: star_only_def)
qed

text \<open>
  C8 (as the code has it).  Under the default configuration (with \<open>MaxClusters = 0\<close>),
  for every line \<open>L\<close> of whose tokens at least the fraction \<open>SimTh = 0.4\<close> differ from
  the placeholder label \<open>*\<close>, and for every \<open>K \<ge> 1\<close>, training \<open>L\<close> exactly \<open>K\<close>
  times produces exactly one cluster, whose size is \<open>K\<close> and whose template is the
  tokenization of \<open>L\<close>.
\<close>

theorem Train_same_line:
  assumes "2 * length (SpaceTokenizer L) \<le> 5 * length (filter (\<lambda>t. t \<noteq> ''*'') (SpaceTokenizer L))"
      and "1 \<le> K" and "valid_orders DefaultConfig orc"
  shows "\<exists>d. train_lines orc (replicate K L) DefaultConfig = Inr d
           \<and> Clusters d = Inr [\<lparr>tokens = SpaceTokenizer L, id' = 1, size' = K\<rparr>]"
proof -
  let ?T = "SpaceTokenizer L"
  from assms(2) obtain K' where K: "K = Suc K'"
    by (cases K) auto
  have orc: "orc = star_only"
    using assms(3) by (rule valid_orders_DefaultConfig)
  obtain d0 where new: "New DefaultConfig = Inr d0"
    by (simp add: New_DefaultConfig)
  have "run_calls (replicate K (star_only, CallTrain L)) d0 = Inr (repeated_state ?T K)"
    using repeated_run [OF refl assms(1), of K' 1]
    by (simp add: K first_Train [OF refl new])
  then have "train_lines orc (replicate K L) DefaultConfig = Inr (repeated_state ?T K)"
    by (simp add: train_lines_def new orc map_replicate_const)
  moreover have "Clusters (repeated_state ?T K) = Inr [\<lparr>tokens = ?T, id' = 1, size' = K\<rparr>]"
    by (simp add: Clusters_def ClusterCache_Values_def repeated_state_def lru_Keys_def lru_Peek_def
        List.map_filter_def)
  ultimately show ?thesis by blast
qed

theorem Train_same_line_witness:
  "2 * length (SpaceTokenizer ''user * logged in'')
     \<le> 5 * length (filter (\<lambda>t. t \<noteq> ''*'') (SpaceTokenizer ''user * logged in''))
   \<and> (1::nat) \<le> 3 \<and> valid_orders DefaultConfig star_only
   \<and> (\<exists>d. train_lines star_only (replicate 3 ''user * logged in'') DefaultConfig = Inr d
         \<and> Clusters d = Inr [\<lparr>tokens = [''user'', ''*'', ''logged'', ''in''], id' = 1, size' = 3\<rparr>])"
proof -
  have toks: "SpaceTokenizer ''user * logged in'' = [''user'', ''*'', ''logged'', ''in'']"
    by code_simp
  have h: "2 * length (SpaceTokenizer ''user * logged in'')
     \<le> 5 * length (filter (\<lambda>t. t \<noteq> ''*'') (SpaceTokenizer ''user * logged in''))"
    by (simp add: toks)
  have v: "valid_orders DefaultConfig star_only"
    by (simp add: valid_orders_def range_order_def DefaultConfig_def star_only_def)
  from Train_same_line [OF h _ v, of 3] h v toks show ?thesis
    by simp
qed

theorem Train_same_line_counterexample:
  "(case train_lines star_only (replicate 2 ''*'') DefaultConfig of
      Inl e \<Rightarrow> Inl e
    | Inr d \<Rightarrow> Clusters d)
   = Inr [\<lparr>tokens = [''*''], id' = 2, size' = 1\<rparr>, \<lparr>tokens = [''*''], id' = 1, size' = 1\<rparr>]"
  by code_simp


section \<open>What Match returns\<close>




















end
